theory Spec2Isabelle
  imports Main
begin

section \<open>Exercise records exported to CSV\<close>

text \<open>
  The repository holds five scripts that write a list of exercise records to a CSV file
  through Python's \<open>csv.DictWriter\<close>: \<open>complete_export.py\<close>, \<open>export_all_exercises.py\<close>,
  \<open>export_complete.py\<close>, \<open>json_to_csv.py\<close> and \<open>export_exercises.py\<close>. The first three share
  one loop, the last two write the records as they are.

  A record is a Python \<open>dict\<close> with string keys, as \<open>json.load\<close> or a literal builds it. It is
  modelled as an association list in insertion order. The values are the scalar values of
  the data: \<open>None\<close>, booleans, integers and strings. Text is a list of characters, and the
  destination is the text stream the script opens with \<open>newline=''\<close>, so that what is written
  reaches the file untranslated.
\<close>

subsection \<open>Values and records\<close>

datatype jvalue = JNull | JBool bool | JInt int | JStr string

type_synonym exercise = "(string \<times> jvalue) list"

text \<open>What Python raises: \<open>OSError\<close> from \<open>open\<close>, \<open>write\<close> and \<open>close\<close>; \<open>ValueError\<close> from
  \<open>DictWriter._dict_to_list\<close>, carrying the keys that are not field names.\<close>

datatype exn = OSError | ValueError "string list"

subsection \<open>\<open>str\<close> of a value\<close>

fun str_nat :: "nat \<Rightarrow> string" where
  "str_nat n = (if n < 10 then [char_of (48 + n)]
                else str_nat (n div 10) @ [char_of (48 + n mod 10)])"

declare str_nat.simps [simp del]

fun str :: "jvalue \<Rightarrow> string" where
  "str JNull = ''None''"
| "str (JBool b) = (if b then ''True'' else ''False'')"
| "str (JInt i) = (if i < 0 then ''-'' @ str_nat (nat (- i)) else str_nat (nat i))"
| "str (JStr s) = s"

subsection \<open>\<open>csv.writer\<close> with the \<open>excel\<close> dialect\<close>

text \<open>
  The scripts build the writer with no dialect argument, so the dialect is \<open>excel\<close>:
  delimiter \<open>,\<close>, quote character \<open>"\<close>, \<open>doublequote\<close> on, line terminator \<open>\r\n\<close>,
  \<open>QUOTE_MINIMAL\<close>, no escape character.
\<close>

definition delimiter :: char where
  "delimiter = CHR '',''"

definition quotechar :: char where
  "quotechar = CHR 0x22"

definition CR :: char where
  "CR = CHR 0x0D"

definition LF :: char where
  "LF = CHR 0x0A"

definition lineterminator :: string where
  "lineterminator = [CR, LF]"

text \<open>A field of a row: \<open>None\<close> is written as the empty text, a string as itself, any other
  value as its \<open>str\<close>.\<close>

fun field_text :: "jvalue \<Rightarrow> string" where
  "field_text JNull = []"
| "field_text (JStr s) = s"
| "field_text v = str v"

text \<open>Under \<open>QUOTE_MINIMAL\<close> a field is quoted when it holds the delimiter, the quote
  character or a character of the line terminator; inside the quotes every quote
  character is doubled.\<close>

definition special :: "char \<Rightarrow> bool" where
  "special c \<longleftrightarrow> c = delimiter \<or> c = quotechar \<or> c \<in> set lineterminator"

fun doublequote :: "string \<Rightarrow> string" where
  "doublequote [] = []"
| "doublequote (c # cs) = (if c = quotechar then [quotechar, quotechar] else [c]) @ doublequote cs"

definition join_append :: "string \<Rightarrow> string" where
  "join_append s = (if list_ex special s then [quotechar] @ doublequote s @ [quotechar] else s)"

fun join :: "string list \<Rightarrow> string" where
  "join [] = []"
| "join [x] = join_append x"
| "join (x # y # ys) = join_append x @ [delimiter] @ join (y # ys)"

text \<open>One call of \<open>writer.writerow\<close> yields one line. A row made of a single empty field
  is written as a pair of quotes.\<close>

definition csv_line :: "jvalue list \<Rightarrow> string" where
  "csv_line row = (let texts = map field_text row
                   in (if texts = [[]] then [quotechar, quotechar] else join texts) @ lineterminator)"

subsection \<open>The destination file\<close>

text \<open>
  The destination is what the script cannot control: whether \<open>open\<close> succeeds, how many
  calls of \<open>write\<close> succeed before one raises (\<open>None\<close>: all of them), and whether \<open>close\<close>
  succeeds. A successful \<open>open(path, 'w')\<close> leaves an empty file; a call of \<open>write\<close> appends
  its whole argument or raises and appends nothing.
\<close>

record destination =
  opens :: bool
  writes :: "nat option"
  closes :: bool

record csvfile =
  content :: string
  room :: "nat option"

definition file_open :: "destination \<Rightarrow> exn + csvfile" where
  "file_open d = (if opens d then Inr \<lparr>content = [], room = writes d\<rparr> else Inl OSError)"

definition file_write :: "csvfile \<Rightarrow> string \<Rightarrow> exn + csvfile" where
  "file_write f s =
     (case room f of
        None \<Rightarrow> Inr (f\<lparr>content := content f @ s\<rparr>)
      | Some 0 \<Rightarrow> Inl OSError
      | Some (Suc k) \<Rightarrow> Inr (f\<lparr>content := content f @ s, room := Some k\<rparr>))"

subsection \<open>\<open>csv.DictWriter\<close>\<close>

text \<open>
  The scripts pass only \<open>fieldnames\<close>, so \<open>restval\<close> is the empty string and \<open>extrasaction\<close> is
  \<open>raise\<close>: a key that is no field name raises before anything is written, and a field
  name that is no key of the record yields \<open>restval\<close>.
\<close>

definition restval :: jvalue where
  "restval = JStr []"

definition dict_get :: "exercise \<Rightarrow> string \<Rightarrow> jvalue \<Rightarrow> jvalue" where
  "dict_get rowdict key dflt = (case map_of rowdict key of None \<Rightarrow> dflt | Some v \<Rightarrow> v)"

text \<open>\<open>rowdict.keys() - self.fieldnames\<close>, listed in the order of the record.\<close>

definition wrong_fields :: "string list \<Rightarrow> exercise \<Rightarrow> string list" where
  "wrong_fields names rowdict = filter (\<lambda>k. k \<notin> set names) (map fst rowdict)"

text \<open>\<open>(rowdict.get(key, self.restval) for key in self.fieldnames)\<close>\<close>

definition row_values :: "string list \<Rightarrow> exercise \<Rightarrow> jvalue list" where
  "row_values names rowdict = map (\<lambda>key. dict_get rowdict key restval) names"

definition dict_to_list :: "string list \<Rightarrow> exercise \<Rightarrow> exn + jvalue list" where
  "dict_to_list names rowdict =
     (if wrong_fields names rowdict \<noteq> [] then Inl (ValueError (wrong_fields names rowdict))
      else Inr (row_values names rowdict))"

definition writerow :: "string list \<Rightarrow> csvfile \<Rightarrow> exercise \<Rightarrow> exn + csvfile" where
  "writerow names f rowdict =
     (case dict_to_list names rowdict of
        Inl e \<Rightarrow> Inl e
      | Inr row \<Rightarrow> file_write f (csv_line row))"

definition writeheader :: "string list \<Rightarrow> csvfile \<Rightarrow> exn + csvfile" where
  "writeheader names f = writerow names f (map (\<lambda>k. (k, JStr k)) names)"

text \<open>\<open>DictWriter.writerows\<close>, and the loop \<open>for exercise in exercises: writer.writerow(exercise)\<close>
  of \<open>json_to_csv.py\<close>: the rows are written one by one and the first exception ends the
  iteration. The result is the exception, if any, and the file as it then is.\<close>

fun writerows :: "string list \<Rightarrow> csvfile \<Rightarrow> exercise list \<Rightarrow> exn option \<times> csvfile" where
  "writerows names f [] = (None, f)"
| "writerows names f (rowdict # rowdicts) =
     (case writerow names f rowdict of
        Inl e \<Rightarrow> (Some e, f)
      | Inr f' \<Rightarrow> writerows names f' rowdicts)"

subsection \<open>The scripts\<close>

text \<open>The column lists: \<open>fieldnames\<close> of \<open>complete_export.py\<close>, \<open>export_all_exercises.py\<close> and
  \<open>export_complete.py\<close>, which is also \<open>fields\<close> of \<open>json_to_csv.py\<close>; and \<open>fields\<close> of
  \<open>export_to_csv\<close> in \<open>export_exercises.py\<close>.\<close>

definition fieldnames :: "string list" where
  "fieldnames = [''id'', ''name'', ''instructions'', ''video_url'', ''created_at'', ''type'',
                 ''difficulty'', ''category_id'', ''is_variation'', ''equipment'', ''muscle'']"

definition export_fields :: "string list" where
  "export_fields = [''id'', ''name'', ''type'', ''muscle'', ''instructions'', ''equipment'', ''video_url'',
                    ''difficulty'', ''category_id'', ''is_variation'', ''created_at'']"

text \<open>What a script prints: the two lines of success, the line of the \<open>except\<close> clause, the
  second line of the \<open>except\<close> clause of \<open>export_exercises\<close>, and the first line of
  \<open>export_to_csv\<close>.\<close>

datatype message = Created | Exported nat | Error exn | Hint | Writing nat

text \<open>What a run leaves behind: the records as they are afterwards (they are mutable
  dictionaries), the destination file (\<open>None\<close> when it was never opened), the lines
  printed, and the exception that escaped, if any.\<close>

record run =
  exercises :: "exercise list"
  csv :: "string option"
  printed :: "message list"
  raised :: "exn option"

text \<open>Leaving a \<open>with open(...)\<close> block closes the file. When \<open>close\<close> raises, its exception
  is the one that leaves the block.\<close>

definition with_exit :: "destination \<Rightarrow> exn option \<Rightarrow> exn option" where
  "with_exit d e = (if closes d then e else Some OSError)"

text \<open>The inner loop \<open>for key, value in exercise.items(): if value is None: exercise[key] = ""\<close>
  assigns to the record itself.\<close>

definition none_to_empty :: "exercise \<Rightarrow> exercise" where
  "none_to_empty exercise = map (\<lambda>(key, v). (key, if v = JNull then JStr [] else v)) exercise"

text \<open>The loop \<open>for exercise in exercises_data\<close> with its counter. It returns the exception, if
  any, the file, the counter and the records as the loop leaves them.\<close>

fun export_loop :: "csvfile \<Rightarrow> nat \<Rightarrow> exercise list \<Rightarrow> exn option \<times> csvfile \<times> nat \<times> exercise list" where
  "export_loop f count [] = (None, f, count, [])"
| "export_loop f count (exercise # rest) =
     (let exercise' = none_to_empty exercise
      in case writerow fieldnames f exercise' of
           Inl e \<Rightarrow> (Some e, f, count, exercise' # rest)
         | Inr f' \<Rightarrow>
             (case export_loop f' (count + 1) rest of
                (r, f'', count', rest') \<Rightarrow> (r, f'', count', exercise' # rest')))"

text \<open>The \<open>with\<close> block of \<open>complete_export.py\<close> (lines 28 to 42), which is the block of
  \<open>export_all_exercises.py\<close> (lines 44 to 58) and of \<open>export_complete.py\<close>: the two lines of
  success are printed inside the block, before the file is closed.\<close>

definition export_block :: "destination \<Rightarrow> exercise list \<Rightarrow> run" where
  "export_block d exercises_data =
     (case file_open d of
        Inl e \<Rightarrow> \<lparr>exercises = exercises_data, csv = None, printed = [], raised = Some e\<rparr>
      | Inr f0 \<Rightarrow>
          (case writeheader fieldnames f0 of
             Inl e \<Rightarrow> \<lparr>exercises = exercises_data, csv = Some (content f0), printed = [],
                        raised = with_exit d (Some e)\<rparr>
           | Inr f1 \<Rightarrow>
               (case export_loop f1 0 exercises_data of
                  (Some e, f2, count, data) \<Rightarrow>
                    \<lparr>exercises = data, csv = Some (content f2), printed = [],
                     raised = with_exit d (Some e)\<rparr>
                | (None, f2, count, data) \<Rightarrow>
                    \<lparr>exercises = data, csv = Some (content f2), printed = [Created, Exported count],
                     raised = with_exit d None\<rparr>)))"

text \<open>\<open>complete_export.py\<close>, lines 26 to 45: \<open>except Exception as e: print(f"Error: {e}")\<close>.
  The usage notes the script prints afterwards on every run are left out.\<close>

definition complete_export :: "destination \<Rightarrow> exercise list \<Rightarrow> run" where
  "complete_export d exercises_data =
     (let r = export_block d exercises_data
      in case raised r of
           None \<Rightarrow> r
         | Some e \<Rightarrow> r\<lparr>printed := printed r @ [Error e], raised := None\<rparr>)"

text \<open>\<open>export_exercises\<close> of \<open>export_all_exercises.py\<close>, from line 43 on, with the records
  already loaded: its \<open>except\<close> clause prints a second line.\<close>

definition export_exercises :: "destination \<Rightarrow> exercise list \<Rightarrow> run" where
  "export_exercises d exercises_data =
     (let r = export_block d exercises_data
      in case raised r of
           None \<Rightarrow> r
         | Some e \<Rightarrow> r\<lparr>printed := printed r @ [Error e, Hint], raised := None\<rparr>)"

text \<open>The \<open>with\<close> block shared by \<open>json_to_csv.py\<close> and \<open>export_to_csv\<close>: header, then the
  rows; nothing is printed inside it and the records are not assigned to.\<close>

definition plain_block :: "string list \<Rightarrow> destination \<Rightarrow> exercise list \<Rightarrow> run" where
  "plain_block names d exercises_data =
     (case file_open d of
        Inl e \<Rightarrow> \<lparr>exercises = exercises_data, csv = None, printed = [], raised = Some e\<rparr>
      | Inr f0 \<Rightarrow>
          (case writeheader names f0 of
             Inl e \<Rightarrow> \<lparr>exercises = exercises_data, csv = Some (content f0), printed = [],
                        raised = with_exit d (Some e)\<rparr>
           | Inr f1 \<Rightarrow>
               (case writerows names f1 exercises_data of
                  (r, f2) \<Rightarrow> \<lparr>exercises = exercises_data, csv = Some (content f2), printed = [],
                              raised = with_exit d r\<rparr>)))"

text \<open>\<open>json_to_csv.py\<close>, lines 23 to 32: no \<open>try\<close>, the two lines are printed after the
  block.\<close>

definition json_to_csv :: "destination \<Rightarrow> exercise list \<Rightarrow> run" where
  "json_to_csv d exercises_data =
     (let r = plain_block fieldnames d exercises_data
      in case raised r of
           None \<Rightarrow> r\<lparr>printed := [Created, Exported (length exercises_data)]\<rparr>
         | Some e \<Rightarrow> r)"

text \<open>\<open>export_to_csv\<close> of \<open>export_exercises.py\<close>, lines 36 to 48.\<close>

definition export_to_csv :: "destination \<Rightarrow> exercise list \<Rightarrow> run" where
  "export_to_csv d exercises_data =
     (let r = plain_block export_fields d exercises_data
      in case raised r of
           None \<Rightarrow> r\<lparr>printed := [Writing (length exercises_data), Created,
                                   Exported (length exercises_data)]\<rparr>
         | Some e \<Rightarrow> r\<lparr>printed := [Writing (length exercises_data)]\<rparr>)"

subsection \<open>The lines of the output\<close>

text \<open>The header line of a writer, the line \<open>writerow\<close> writes for a record, and the line
  the loop of \<open>complete_export.py\<close> writes for a record, after its inner loop.\<close>

definition header_line :: "string list \<Rightarrow> string" where
  "header_line names = csv_line (map JStr names)"

definition plain_line :: "string list \<Rightarrow> exercise \<Rightarrow> string" where
  "plain_line names rowdict = csv_line (row_values names rowdict)"

definition export_line :: "exercise \<Rightarrow> string" where
  "export_line exercise = plain_line fieldnames (none_to_empty exercise)"

text \<open>The texts of the cells of those lines, before quoting.\<close>

definition plain_cells :: "string list \<Rightarrow> exercise \<Rightarrow> string list" where
  "plain_cells names rowdict = map field_text (row_values names rowdict)"

definition export_cells :: "exercise \<Rightarrow> string list" where
  "export_cells exercise = plain_cells fieldnames (none_to_empty exercise)"

text \<open>A destination that never fails, and the destinations that open, close and take at
  least \<open>k\<close> calls of \<open>write\<close>.\<close>

definition reliable :: destination where
  "reliable = \<lparr>opens = True, writes = None, closes = True\<rparr>"

definition takes :: "destination \<Rightarrow> nat \<Rightarrow> bool" where
  "takes d k \<longleftrightarrow> opens d \<and> closes d \<and> (case writes d of None \<Rightarrow> True | Some m \<Rightarrow> k \<le> m)"

text \<open>The record of the specification's example, with a two-line \<open>instructions\<close> text.\<close>

definition push_up :: exercise where
  "push_up = [(''id'', JStr ''1''), (''name'', JStr ''Push-up''),
              (''instructions'', JStr (''Step 1'' @ [LF] @ ''Step 2'')),
              (''video_url'', JStr []), (''created_at'', JStr []), (''type'', JStr ''chest''),
              (''difficulty'', JNull), (''category_id'', JNull), (''is_variation'', JBool False),
              (''equipment'', JStr ''{bodyweight}''), (''muscle'', JNull)]"

subsection \<open>Reading a CSV text back\<close>

text \<open>
  The reader of RFC 4180, against which the written text is judged: a file is a
  sequence of records, each ended by CR LF (the last one may lack it); a record is a
  sequence of fields separated by commas; a field is either a run of characters other
  than comma, quote, CR and LF, or a quoted text in which a quote stands doubled. The
  reader is a scan over the characters with the field, the record and the records read
  so far, each in reverse; it answers \<open>None\<close> on a text outside the grammar.
\<close>

datatype scan = RecordStart | FieldStart | Unquoted | Quoted | QuoteSeen | CRSeen

fun rfc4180 :: "scan \<Rightarrow> string \<Rightarrow> string list \<Rightarrow> string list list \<Rightarrow> string \<Rightarrow> string list list option" where
  "rfc4180 st fld rcd done [] =
     (case st of
        RecordStart \<Rightarrow> Some (rev done)
      | Quoted \<Rightarrow> None
      | CRSeen \<Rightarrow> None
      | _ \<Rightarrow> Some (rev (rev (rev fld # rcd) # done)))"
| "rfc4180 st fld rcd done (c # cs) =
     (case st of
        Quoted \<Rightarrow>
          (if c = quotechar then rfc4180 QuoteSeen fld rcd done cs
           else rfc4180 Quoted (c # fld) rcd done cs)
      | CRSeen \<Rightarrow>
          (if c = LF then rfc4180 RecordStart [] [] (rev (rev fld # rcd) # done) cs else None)
      | QuoteSeen \<Rightarrow>
          (if c = quotechar then rfc4180 Quoted (c # fld) rcd done cs
           else if c = delimiter then rfc4180 FieldStart [] (rev fld # rcd) done cs
           else if c = CR then rfc4180 CRSeen fld rcd done cs
           else None)
      | Unquoted \<Rightarrow>
          (if c = delimiter then rfc4180 FieldStart [] (rev fld # rcd) done cs
           else if c = CR then rfc4180 CRSeen fld rcd done cs
           else if c = quotechar \<or> c = LF then None
           else rfc4180 Unquoted (c # fld) rcd done cs)
      | _ \<Rightarrow>
          (if c = quotechar then rfc4180 Quoted [] rcd done cs
           else if c = delimiter then rfc4180 FieldStart [] ([] # rcd) done cs
           else if c = CR then rfc4180 CRSeen [] rcd done cs
           else if c = LF then None
           else rfc4180 Unquoted [c] rcd done cs))"

definition read_csv :: "string \<Rightarrow> string list list option" where
  "read_csv text = rfc4180 RecordStart [] [] [] text"

section \<open>Properties\<close>

subsection \<open>What one call of the writer does\<close>

lemma none_to_empty_keys: "map fst (none_to_empty x) = map fst x"
  by (induction x) (auto simp: none_to_empty_def)

lemma wrong_fields_none_to_empty: "wrong_fields names (none_to_empty x) = wrong_fields names x"
  by (simp add: wrong_fields_def none_to_empty_keys)

lemma writerow_cases:
  "writerow names f x =
     (if wrong_fields names x \<noteq> [] then Inl (ValueError (wrong_fields names x))
      else case room f of
             None \<Rightarrow> Inr (f\<lparr>content := content f @ plain_line names x\<rparr>)
           | Some 0 \<Rightarrow> Inl OSError
           | Some (Suc k) \<Rightarrow> Inr (f\<lparr>content := content f @ plain_line names x, room := Some k\<rparr>))"
  by (simp add: writerow_def dict_to_list_def file_write_def plain_line_def split: option.split nat.split)

lemma header_wrong_fields: "wrong_fields names (map (\<lambda>k. (k, JStr k)) names) = []"
  by (simp add: wrong_fields_def comp_def)

lemma header_row_values: "row_values names (map (\<lambda>k. (k, JStr k)) names) = map JStr names"
  by (simp add: row_values_def dict_get_def map_of_map_restrict restrict_map_def)

lemma writeheader_cases:
  "writeheader names f =
     (case room f of
        None \<Rightarrow> Inr (f\<lparr>content := content f @ header_line names\<rparr>)
      | Some 0 \<Rightarrow> Inl OSError
      | Some (Suc k) \<Rightarrow> Inr (f\<lparr>content := content f @ header_line names, room := Some k\<rparr>))"
  by (simp add: writeheader_def writerow_cases header_wrong_fields plain_line_def
        header_row_values header_line_def split: option.split nat.split)

lemma writeheader_opened:
  assumes "writes d \<noteq> Some 0"
  shows "\<exists>f1. writeheader names \<lparr>content = [], room = writes d\<rparr> = Inr f1
          \<and> content f1 = header_line names
          \<and> (\<forall>m. room f1 = Some m \<longrightarrow> writes d = Some (Suc m))
          \<and> (\<forall>m. writes d = Some m \<longrightarrow> (\<exists>k. m = Suc k \<and> room f1 = Some k))"
  using assms by (auto simp: writeheader_cases split: option.split nat.split)

lemma header_fieldnames:
  "header_line fieldnames
   = ''id,name,instructions,video_url,created_at,type,difficulty,category_id,is_variation,equipment,muscle''
     @ [CR, LF]"
  by (simp add: header_line_def fieldnames_def csv_line_def join_append_def special_def
        delimiter_def quotechar_def lineterminator_def CR_def LF_def)

lemma header_export_fields:
  "header_line export_fields
   = ''id,name,type,muscle,instructions,equipment,video_url,difficulty,category_id,is_variation,created_at''
     @ [CR, LF]"
  by (simp add: header_line_def export_fields_def csv_line_def join_append_def special_def
        delimiter_def quotechar_def lineterminator_def CR_def LF_def)

subsection \<open>What the loops and the blocks leave in the file\<close>

text \<open>
  The loop writes the lines of the first \<open>n\<close> records and then either ends (\<open>n\<close> is the
  number of records) or raises at record \<open>n\<close>: a \<open>ValueError\<close> when that record has a key
  that is no field name, an \<open>OSError\<close> when the file takes no further write. The records up
  to and including record \<open>n\<close> have been through the inner loop.
\<close>

lemma export_loop_general:
  "export_loop f c data = (r, f', c', data') \<Longrightarrow>
   \<exists>n. c' = c + n \<and> n \<le> length data
     \<and> content f' = content f @ concat (map export_line (take n data))
     \<and> data' = map none_to_empty (take (Suc n) data) @ drop (Suc n) data
     \<and> (\<forall>x \<in> set (take n data). wrong_fields fieldnames x = [])
     \<and> (\<forall>m. room f = Some m \<longrightarrow> n \<le> m)
     \<and> (r = None \<longrightarrow> n = length data)
     \<and> (\<forall>e. r = Some e \<longrightarrow> n < length data
            \<and> (if wrong_fields fieldnames (data ! n) \<noteq> []
                then e = ValueError (wrong_fields fieldnames (data ! n))
                else e = OSError \<and> room f = Some n))"
proof (induction data arbitrary: f c r f' c' data')
  case Nil
  then show ?case by simp
next
  case (Cons x xs)
  show ?case
  proof (cases "writerow fieldnames f (none_to_empty x)")
    case (Inl e)
    with Cons.prems have "r = Some e" "f' = f" "c' = c" "data' = none_to_empty x # xs"
      by simp_all
    moreover from Inl have "if wrong_fields fieldnames x \<noteq> []
                then e = ValueError (wrong_fields fieldnames x)
                else e = OSError \<and> room f = Some 0"
      by (auto simp: writerow_cases wrong_fields_none_to_empty split: if_splits option.splits nat.splits)
    ultimately show ?thesis by (intro exI [of _ 0]) simp
  next
    case (Inr f1)
    obtain r1 f2 c2 d2 where loop: "export_loop f1 (c + 1) xs = (r1, f2, c2, d2)"
      by (cases "export_loop f1 (c + 1) xs") auto
    with Inr Cons.prems have eq: "r = r1" "f' = f2" "c' = c2" "data' = none_to_empty x # d2"
      by simp_all
    from Inr have ok: "wrong_fields fieldnames x = []"
      and f1: "content f1 = content f @ export_line x"
      and room: "\<And>m. room f1 = Some m \<Longrightarrow> room f = Some (Suc m)"
      and room': "\<And>m. room f = Some m \<Longrightarrow> \<exists>k. m = Suc k \<and> room f1 = Some k"
      by (auto simp: writerow_cases wrong_fields_none_to_empty export_line_def
               split: if_splits option.splits nat.splits)
    from Cons.IH [OF loop] obtain n where n:
      "c2 = c + 1 + n" "n \<le> length xs"
      "content f2 = content f1 @ concat (map export_line (take n xs))"
      "d2 = map none_to_empty (take (Suc n) xs) @ drop (Suc n) xs"
      "\<forall>x \<in> set (take n xs). wrong_fields fieldnames x = []"
      "\<forall>m. room f1 = Some m \<longrightarrow> n \<le> m"
      "r1 = None \<longrightarrow> n = length xs"
      "\<forall>e. r1 = Some e \<longrightarrow> n < length xs
            \<and> (if wrong_fields fieldnames (xs ! n) \<noteq> []
                then e = ValueError (wrong_fields fieldnames (xs ! n))
                else e = OSError \<and> room f1 = Some n)"
      by blast
    have "\<forall>m. room f = Some m \<longrightarrow> Suc n \<le> m"
      using room' n(6) by fastforce
    then show ?thesis
      using eq ok f1 room n by (intro exI [of _ "Suc n"]) auto
  qed
qed


lemma export_block_general:
  assumes "opens d" and "writes d \<noteq> Some 0"
  shows "\<exists>n \<le> length data.
           csv (export_block d data) = Some (header_line fieldnames @ concat (map export_line (take n data)))
         \<and> exercises (export_block d data) = map none_to_empty (take (Suc n) data) @ drop (Suc n) data
         \<and> (\<forall>x \<in> set (take n data). wrong_fields fieldnames x = [])
         \<and> (\<forall>m. writes d = Some m \<longrightarrow> Suc n \<le> m)
         \<and> (if n = length data
             then printed (export_block d data) = [Created, Exported n]
                \<and> raised (export_block d data) = with_exit d None
             else printed (export_block d data) = []
                \<and> (if wrong_fields fieldnames (data ! n) \<noteq> []
                    then raised (export_block d data)
                         = with_exit d (Some (ValueError (wrong_fields fieldnames (data ! n))))
                    else writes d = Some (Suc n) \<and> raised (export_block d data) = Some OSError))"
proof -
  from writeheader_opened [OF assms(2)] obtain f1 where
    hdr: "writeheader fieldnames \<lparr>content = [], room = writes d\<rparr> = Inr f1"
    and f1: "content f1 = header_line fieldnames"
    and room: "\<And>m. room f1 = Some m \<Longrightarrow> writes d = Some (Suc m)"
    and room': "\<And>m. writes d = Some m \<Longrightarrow> \<exists>k. m = Suc k \<and> room f1 = Some k"
    by blast
  obtain r f2 c data' where loop: "export_loop f1 0 data = (r, f2, c, data')"
    by (cases "export_loop f1 0 data") auto
  from export_loop_general [OF loop] obtain n where n:
    "c = n" "n \<le> length data"
    "content f2 = content f1 @ concat (map export_line (take n data))"
    "data' = map none_to_empty (take (Suc n) data) @ drop (Suc n) data"
    "\<forall>x \<in> set (take n data). wrong_fields fieldnames x = []"
    "r = None \<longrightarrow> n = length data"
    "\<forall>e. r = Some e \<longrightarrow> n < length data
         \<and> (if wrong_fields fieldnames (data ! n) \<noteq> []
             then e = ValueError (wrong_fields fieldnames (data ! n))
             else e = OSError \<and> room f1 = Some n)"
    "\<forall>m. room f1 = Some m \<longrightarrow> n \<le> m"
    by auto
  have bound: "\<forall>m. writes d = Some m \<longrightarrow> Suc n \<le> m"
    using room' n(8) by fastforce
  show ?thesis
  proof (cases r)
    case None
    with n have "n = length data" by simp
    with None assms(1) hdr loop f1 n bound show ?thesis
      by (intro exI [of _ n]) (simp add: export_block_def file_open_def)
  next
    case (Some e)
    with n have lt: "n < length data"
      and e: "if wrong_fields fieldnames (data ! n) \<noteq> []
              then e = ValueError (wrong_fields fieldnames (data ! n))
              else e = OSError \<and> room f1 = Some n"
      by simp_all
    have blk: "export_block d data
               = \<lparr>exercises = data', csv = Some (content f2), printed = [],
                  raised = with_exit d (Some e)\<rparr>"
      using Some assms(1) hdr loop by (simp add: export_block_def file_open_def)
    show ?thesis
    proof (cases "wrong_fields fieldnames (data ! n) \<noteq> []")
      case True
      with e lt n f1 blk bound show ?thesis by (intro exI [of _ n]) simp
    next
      case False
      with e have "e = OSError" "writes d = Some (Suc n)" using room by simp_all
      with False lt n f1 blk bound show ?thesis
        by (intro exI [of _ n]) (simp add: with_exit_def)
    qed
  qed
qed


lemma writerows_general:
  "writerows names f rows = (r, f') \<Longrightarrow>
   \<exists>n \<le> length rows.
       content f' = content f @ concat (map (plain_line names) (take n rows))
     \<and> (\<forall>x \<in> set (take n rows). wrong_fields names x = [])
     \<and> (\<forall>m. room f = Some m \<longrightarrow> n \<le> m)
     \<and> (r = None \<longrightarrow> n = length rows)
     \<and> (\<forall>e. r = Some e \<longrightarrow> n < length rows
            \<and> (if wrong_fields names (rows ! n) \<noteq> []
                then e = ValueError (wrong_fields names (rows ! n))
                else e = OSError \<and> room f = Some n))"
proof (induction rows arbitrary: f r f')
  case Nil
  then show ?case by simp
next
  case (Cons x xs)
  show ?case
  proof (cases "writerow names f x")
    case (Inl e)
    with Cons.prems have "r = Some e" "f' = f" by simp_all
    moreover from Inl have "if wrong_fields names x \<noteq> []
                then e = ValueError (wrong_fields names x)
                else e = OSError \<and> room f = Some 0"
      by (auto simp: writerow_cases split: if_splits option.splits nat.splits)
    ultimately show ?thesis by (intro exI [of _ 0]) simp
  next
    case (Inr f1)
    with Cons.prems have rest: "writerows names f1 xs = (r, f')" by simp
    from Inr have ok: "wrong_fields names x = []"
      and f1: "content f1 = content f @ plain_line names x"
      and room: "\<And>m. room f1 = Some m \<Longrightarrow> room f = Some (Suc m)"
      and room': "\<And>m. room f = Some m \<Longrightarrow> \<exists>k. m = Suc k \<and> room f1 = Some k"
      by (auto simp: writerow_cases split: if_splits option.splits nat.splits)
    from Cons.IH [OF rest] obtain n where n:
      "n \<le> length xs"
      "content f' = content f1 @ concat (map (plain_line names) (take n xs))"
      "\<forall>x \<in> set (take n xs). wrong_fields names x = []"
      "\<forall>m. room f1 = Some m \<longrightarrow> n \<le> m"
      "r = None \<longrightarrow> n = length xs"
      "\<forall>e. r = Some e \<longrightarrow> n < length xs
            \<and> (if wrong_fields names (xs ! n) \<noteq> []
                then e = ValueError (wrong_fields names (xs ! n))
                else e = OSError \<and> room f1 = Some n)"
      by blast
    have "\<forall>m. room f = Some m \<longrightarrow> Suc n \<le> m"
      using room' n(4) by fastforce
    then show ?thesis
      using ok f1 room n by (intro exI [of _ "Suc n"]) auto
  qed
qed

lemma plain_block_general:
  assumes "opens d" and "writes d \<noteq> Some 0"
  shows "\<exists>n \<le> length data.
           csv (plain_block names d data)
           = Some (header_line names @ concat (map (plain_line names) (take n data)))
         \<and> exercises (plain_block names d data) = data
         \<and> printed (plain_block names d data) = []
         \<and> (\<forall>x \<in> set (take n data). wrong_fields names x = [])
         \<and> (\<forall>m. writes d = Some m \<longrightarrow> Suc n \<le> m)
         \<and> (if n = length data
             then raised (plain_block names d data) = with_exit d None
             else if wrong_fields names (data ! n) \<noteq> []
                  then raised (plain_block names d data)
                       = with_exit d (Some (ValueError (wrong_fields names (data ! n))))
                  else writes d = Some (Suc n) \<and> raised (plain_block names d data) = Some OSError)"
proof -
  from writeheader_opened [OF assms(2)] obtain f1 where
    hdr: "writeheader names \<lparr>content = [], room = writes d\<rparr> = Inr f1"
    and f1: "content f1 = header_line names"
    and room: "\<And>m. room f1 = Some m \<Longrightarrow> writes d = Some (Suc m)"
    and room': "\<And>m. writes d = Some m \<Longrightarrow> \<exists>k. m = Suc k \<and> room f1 = Some k"
    by blast
  obtain r f2 where rows: "writerows names f1 data = (r, f2)"
    by (cases "writerows names f1 data") auto
  from writerows_general [OF rows] obtain n where n:
    "n \<le> length data"
    "content f2 = content f1 @ concat (map (plain_line names) (take n data))"
    "\<forall>x \<in> set (take n data). wrong_fields names x = []"
    "r = None \<longrightarrow> n = length data"
    "\<forall>e. r = Some e \<longrightarrow> n < length data
         \<and> (if wrong_fields names (data ! n) \<noteq> []
             then e = ValueError (wrong_fields names (data ! n))
             else e = OSError \<and> room f1 = Some n)"
    "\<forall>m. room f1 = Some m \<longrightarrow> n \<le> m"
    by blast
  have bound: "\<forall>m. writes d = Some m \<longrightarrow> Suc n \<le> m"
    using room' n(6) by fastforce
  have blk: "plain_block names d data
             = \<lparr>exercises = data, csv = Some (content f2), printed = [], raised = with_exit d r\<rparr>"
    using assms(1) hdr rows by (simp add: plain_block_def file_open_def)
  show ?thesis
  proof (cases r)
    case None
    with n have "n = length data" by simp
    with None f1 n blk bound show ?thesis by (intro exI [of _ n]) simp
  next
    case (Some e)
    with n have lt: "n < length data"
      and e: "if wrong_fields names (data ! n) \<noteq> []
              then e = ValueError (wrong_fields names (data ! n))
              else e = OSError \<and> room f1 = Some n"
      by simp_all
    show ?thesis
    proof (cases "wrong_fields names (data ! n) \<noteq> []")
      case True
      with e lt n f1 blk Some bound show ?thesis by (intro exI [of _ n]) simp
    next
      case False
      with e have "e = OSError" "writes d = Some (Suc n)" using room by simp_all
      with False lt n f1 blk Some bound show ?thesis
        by (intro exI [of _ n]) (simp add: with_exit_def)
    qed
  qed
qed

subsection \<open>Reading back what the writer wrote\<close>

lemma chars_distinct:
  "delimiter \<noteq> quotechar" "delimiter \<noteq> CR" "delimiter \<noteq> LF"
  "quotechar \<noteq> CR" "quotechar \<noteq> LF" "CR \<noteq> LF"
  "quotechar \<noteq> delimiter" "CR \<noteq> delimiter" "LF \<noteq> delimiter"
  "CR \<noteq> quotechar" "LF \<noteq> quotechar" "LF \<noteq> CR"
  by (simp_all add: delimiter_def quotechar_def CR_def LF_def)

lemma special_iff: "special c \<longleftrightarrow> c = delimiter \<or> c = quotechar \<or> c = CR \<or> c = LF"
  by (auto simp: special_def lineterminator_def)

lemma scan_unquoted:
  "\<not> list_ex special s \<Longrightarrow>
   rfc4180 Unquoted fld rcd done (s @ rest) = rfc4180 Unquoted (rev s @ fld) rcd done rest"
  by (induction s arbitrary: fld) (simp_all add: special_iff)

lemma scan_quoted:
  "rfc4180 Quoted fld rcd done (doublequote s @ quotechar # rest)
   = rfc4180 QuoteSeen (rev s @ fld) rcd done rest"
  by (induction s arbitrary: fld) simp_all

lemma scan_field_delimiter:
  assumes "st = RecordStart \<or> st = FieldStart"
  shows "rfc4180 st [] rcd done (join_append s @ delimiter # rest)
         = rfc4180 FieldStart [] (s # rcd) done rest"
proof (cases "list_ex special s")
  case True
  then show ?thesis
    using assms by (auto simp: join_append_def scan_quoted chars_distinct)
next
  case False
  show ?thesis
  proof (cases s)
    case Nil
    then show ?thesis using assms by (auto simp: join_append_def chars_distinct)
  next
    case (Cons c cs)
    with False have c: "\<not> special c" and cs: "\<not> list_ex special cs" by simp_all
    from c have "c \<noteq> delimiter" "c \<noteq> quotechar" "c \<noteq> CR" "c \<noteq> LF"
      by (simp_all add: special_iff)
    then show ?thesis
      using assms False Cons scan_unquoted [OF cs, of "[c]" rcd "done" "delimiter # rest"]
      by (auto simp: join_append_def)
  qed
qed

lemma scan_field_newline:
  assumes "st = RecordStart \<or> st = FieldStart"
  shows "rfc4180 st [] rcd done (join_append s @ CR # LF # rest)
         = rfc4180 RecordStart [] [] (rev (s # rcd) # done) rest"
proof (cases "list_ex special s")
  case True
  then show ?thesis
    using assms by (auto simp: join_append_def scan_quoted chars_distinct)
next
  case False
  show ?thesis
  proof (cases s)
    case Nil
    then show ?thesis using assms by (auto simp: join_append_def chars_distinct)
  next
    case (Cons c cs)
    with False have c: "\<not> special c" and cs: "\<not> list_ex special cs" by simp_all
    from c have "c \<noteq> delimiter" "c \<noteq> quotechar" "c \<noteq> CR" "c \<noteq> LF"
      by (simp_all add: special_iff)
    then show ?thesis
      using assms False Cons scan_unquoted [OF cs, of "[c]" rcd "done" "CR # LF # rest"]
      by (auto simp: join_append_def chars_distinct)
  qed
qed

lemma scan_join:
  assumes "st = RecordStart \<or> st = FieldStart" and "texts \<noteq> []"
  shows "rfc4180 st [] rcd done (join texts @ CR # LF # rest)
         = rfc4180 RecordStart [] [] (rev (rev texts @ rcd) # done) rest"
  using assms
proof (induction texts arbitrary: st rcd rule: join.induct)
  case 1
  then show ?case by simp
next
  case (2 x)
  then show ?case by (simp add: scan_field_newline)
next
  case (3 x y ys)
  have "rfc4180 st [] rcd done (join (x # y # ys) @ CR # LF # rest)
        = rfc4180 FieldStart [] (x # rcd) done (join (y # ys) @ CR # LF # rest)"
    using "3.prems"(1) scan_field_delimiter [of st rcd "done" x] by simp
  also have "\<dots> = rfc4180 RecordStart [] [] (rev (rev (y # ys) @ x # rcd) # done) rest"
    by (rule "3.IH") simp_all
  finally show ?case by simp
qed

lemma scan_line:
  assumes "row \<noteq> []"
  shows "rfc4180 RecordStart [] [] done (csv_line row @ rest)
         = rfc4180 RecordStart [] [] (map field_text row # done) rest"
proof (cases "map field_text row = [[]]")
  case True
  then show ?thesis
    by (simp add: csv_line_def lineterminator_def chars_distinct)
next
  case False
  with assms show ?thesis
    using scan_join [of RecordStart "map field_text row" "[]" "done" rest]
    by (simp add: csv_line_def lineterminator_def)
qed

lemma scan_lines:
  "\<forall>row \<in> set rows. row \<noteq> [] \<Longrightarrow>
   rfc4180 RecordStart [] [] done (concat (map csv_line rows))
   = Some (rev done @ map (map field_text) rows)"
proof (induction rows arbitrary: "done")
  case Nil
  then show ?case by simp
next
  case (Cons row rows)
  then show ?case by (simp add: scan_line)
qed

lemma read_csv_lines:
  "\<forall>row \<in> set rows. row \<noteq> [] \<Longrightarrow>
   read_csv (concat (map csv_line rows)) = Some (map (map field_text) rows)"
  by (simp add: read_csv_def scan_lines)

subsection \<open>When the export succeeds\<close>

lemma wrong_fields_empty_iff: "wrong_fields names x = [] \<longleftrightarrow> set (map fst x) \<subseteq> set names"
  by (auto simp: wrong_fields_def filter_empty_conv)

lemma export_block_succeeds:
  assumes "takes d (Suc (length data))"
    and "\<forall>x \<in> set data. wrong_fields fieldnames x = []"
  shows "csv (export_block d data) = Some (header_line fieldnames @ concat (map export_line data))"
    and "exercises (export_block d data) = map none_to_empty data"
    and "printed (export_block d data) = [Created, Exported (length data)]"
    and "raised (export_block d data) = None"
proof -
  from assms(1) have d: "opens d" "writes d \<noteq> Some 0" "closes d"
    and enough: "\<And>m. writes d = Some m \<Longrightarrow> Suc (length data) \<le> m"
    by (auto simp: takes_def split: option.splits)
  from export_block_general [OF d(1,2), of data] obtain n where n:
    "n \<le> length data"
    "csv (export_block d data) = Some (header_line fieldnames @ concat (map export_line (take n data)))"
    "exercises (export_block d data) = map none_to_empty (take (Suc n) data) @ drop (Suc n) data"
    "if n = length data
     then printed (export_block d data) = [Created, Exported n]
        \<and> raised (export_block d data) = with_exit d None
     else printed (export_block d data) = []
        \<and> (if wrong_fields fieldnames (data ! n) \<noteq> []
            then raised (export_block d data)
                 = with_exit d (Some (ValueError (wrong_fields fieldnames (data ! n))))
            else writes d = Some (Suc n) \<and> raised (export_block d data) = Some OSError)"
    by blast
  have "n = length data"
  proof (rule ccontr)
    assume "n \<noteq> length data"
    with n(1) have lt: "n < length data" by simp
    then have "wrong_fields fieldnames (data ! n) = []" using assms(2) by simp
    with n(4) lt have "writes d = Some (Suc n)" by simp
    with enough lt show False by fastforce
  qed
  with n d(3)
  show "csv (export_block d data) = Some (header_line fieldnames @ concat (map export_line data))"
    and "exercises (export_block d data) = map none_to_empty data"
    and "printed (export_block d data) = [Created, Exported (length data)]"
    and "raised (export_block d data) = None"
    by (simp_all add: with_exit_def)
qed

lemma complete_export_succeeds:
  assumes "takes d (Suc (length data))"
    and "\<forall>x \<in> set data. wrong_fields fieldnames x = []"
  shows "csv (complete_export d data) = Some (header_line fieldnames @ concat (map export_line data))"
    and "exercises (complete_export d data) = map none_to_empty data"
    and "printed (complete_export d data) = [Created, Exported (length data)]"
    and "raised (complete_export d data) = None"
  using export_block_succeeds [OF assms] by (simp_all add: complete_export_def)

lemma export_exercises_succeeds:
  assumes "takes d (Suc (length data))"
    and "\<forall>x \<in> set data. wrong_fields fieldnames x = []"
  shows "csv (export_exercises d data) = Some (header_line fieldnames @ concat (map export_line data))"
    and "exercises (export_exercises d data) = map none_to_empty data"
    and "printed (export_exercises d data) = [Created, Exported (length data)]"
    and "raised (export_exercises d data) = None"
  using export_block_succeeds [OF assms] by (simp_all add: export_exercises_def)

subsection \<open>The cells of the lines, read back\<close>

lemma plain_line_fun: "plain_line names = (\<lambda>x. csv_line (row_values names x))"
  by (rule ext) (simp add: plain_line_def)

lemma plain_cells_fun: "plain_cells names = (\<lambda>x. map field_text (row_values names x))"
  by (rule ext) (simp add: plain_cells_def)

lemma export_line_fun: "export_line = (\<lambda>x. plain_line fieldnames (none_to_empty x))"
  by (rule ext) (simp add: export_line_def)

lemma export_cells_fun: "export_cells = (\<lambda>x. plain_cells fieldnames (none_to_empty x))"
  by (rule ext) (simp add: export_cells_def)

lemma read_plain_lines:
  assumes "names \<noteq> []"
  shows "read_csv (header_line names @ concat (map (plain_line names) xs))
         = Some (names # map (plain_cells names) xs)"
proof -
  have "header_line names @ concat (map (plain_line names) xs)
        = concat (map csv_line (map JStr names # map (row_values names) xs))"
    by (simp add: header_line_def plain_line_fun comp_def)
  moreover have "\<forall>row \<in> set (map JStr names # map (row_values names) xs). row \<noteq> []"
    using assms by (auto simp: row_values_def)
  ultimately show ?thesis
    using read_csv_lines [of "map JStr names # map (row_values names) xs"]
    by (simp add: plain_cells_fun comp_def)
qed

lemma read_export_lines:
  "read_csv (header_line fieldnames @ concat (map export_line xs))
   = Some (fieldnames # map export_cells xs)"
proof -
  have "fieldnames \<noteq> []" by (simp add: fieldnames_def)
  from read_plain_lines [OF this, of "map none_to_empty xs"] show ?thesis
    by (simp add: comp_def export_line_fun export_cells_fun)
qed

lemma field_text_str: "field_text v = (if v = JNull then [] else str v)"
  by (cases v) simp_all

lemma plain_cells_nth:
  assumes "j < length names"
  shows "plain_cells names x ! j
         = (case map_of x (names ! j) of None \<Rightarrow> [] | Some v \<Rightarrow> if v = JNull then [] else str v)"
  using assms
  by (simp add: plain_cells_def row_values_def dict_get_def restval_def field_text_str
        split: option.split)

lemma map_of_none_to_empty:
  "map_of (none_to_empty x) k = map_option (\<lambda>v. if v = JNull then JStr [] else v) (map_of x k)"
  by (simp add: none_to_empty_def map_of_map)

lemma export_cells_nth:
  assumes "j < length fieldnames"
  shows "export_cells x ! j
         = (case map_of x (fieldnames ! j) of None \<Rightarrow> [] | Some v \<Rightarrow> if v = JNull then [] else str v)"
  using assms
  by (simp add: export_cells_def plain_cells_nth map_of_none_to_empty split: option.split)

lemma length_plain_cells: "length (plain_cells names x) = length names"
  by (simp add: plain_cells_def row_values_def)

lemma length_export_cells: "length (export_cells x) = length fieldnames"
  by (simp add: export_cells_def length_plain_cells)



subsection \<open>The scripts on a destination that takes the header\<close>

lemma complete_export_general:
  assumes "opens d" and "writes d \<noteq> Some 0"
  shows "\<exists>n \<le> length data.
           csv (complete_export d data)
           = Some (header_line fieldnames @ concat (map export_line (take n data)))
         \<and> exercises (complete_export d data)
           = map none_to_empty (take (Suc n) data) @ drop (Suc n) data
         \<and> (\<forall>x \<in> set (take n data). wrong_fields fieldnames x = [])
         \<and> (\<forall>m. writes d = Some m \<longrightarrow> Suc n \<le> m)
         \<and> raised (complete_export d data) = None
         \<and> (if n = length data
             then printed (complete_export d data)
                  = [Created, Exported n] @ (if closes d then [] else [Error OSError])
             else if wrong_fields fieldnames (data ! n) \<noteq> []
                  then printed (complete_export d data)
                       = [Error (if closes d then ValueError (wrong_fields fieldnames (data ! n))
                                 else OSError)]
                  else writes d = Some (Suc n) \<and> printed (complete_export d data) = [Error OSError])"
proof -
  from export_block_general [OF assms, of data] obtain n where n:
    "n \<le> length data"
    "csv (export_block d data) = Some (header_line fieldnames @ concat (map export_line (take n data)))"
    "exercises (export_block d data) = map none_to_empty (take (Suc n) data) @ drop (Suc n) data"
    "\<forall>x \<in> set (take n data). wrong_fields fieldnames x = []"
    "\<forall>m. writes d = Some m \<longrightarrow> Suc n \<le> m"
    "if n = length data
     then printed (export_block d data) = [Created, Exported n]
        \<and> raised (export_block d data) = with_exit d None
     else printed (export_block d data) = []
        \<and> (if wrong_fields fieldnames (data ! n) \<noteq> []
            then raised (export_block d data)
                 = with_exit d (Some (ValueError (wrong_fields fieldnames (data ! n))))
            else writes d = Some (Suc n) \<and> raised (export_block d data) = Some OSError)"
    by blast
  show ?thesis
  proof (cases "n = length data")
    case True
    with n show ?thesis
      by (intro exI [of _ n]) (simp add: complete_export_def with_exit_def)
  next
    case False
    note neq = this
    show ?thesis
    proof (cases "wrong_fields fieldnames (data ! n) \<noteq> []")
      case True
      with neq n show ?thesis
        by (intro exI [of _ n]) (simp add: complete_export_def with_exit_def)
    next
      case False
      with neq n show ?thesis
        by (intro exI [of _ n]) (simp add: complete_export_def)
    qed
  qed
qed

lemma json_to_csv_general:
  assumes "opens d" and "writes d \<noteq> Some 0"
  shows "\<exists>n \<le> length data.
           csv (json_to_csv d data)
           = Some (header_line fieldnames @ concat (map (plain_line fieldnames) (take n data)))
         \<and> exercises (json_to_csv d data) = data
         \<and> (\<forall>x \<in> set (take n data). wrong_fields fieldnames x = [])
         \<and> (\<forall>m. writes d = Some m \<longrightarrow> Suc n \<le> m)
         \<and> (if n = length data
             then raised (json_to_csv d data) = with_exit d None
                \<and> printed (json_to_csv d data)
                  = (if closes d then [Created, Exported (length data)] else [])
             else printed (json_to_csv d data) = []
                \<and> (if wrong_fields fieldnames (data ! n) \<noteq> []
                    then raised (json_to_csv d data)
                         = with_exit d (Some (ValueError (wrong_fields fieldnames (data ! n))))
                    else writes d = Some (Suc n) \<and> raised (json_to_csv d data) = Some OSError))"
proof -
  from plain_block_general [OF assms, of data fieldnames] obtain n where n:
    "n \<le> length data"
    "csv (plain_block fieldnames d data)
     = Some (header_line fieldnames @ concat (map (plain_line fieldnames) (take n data)))"
    "exercises (plain_block fieldnames d data) = data"
    "printed (plain_block fieldnames d data) = []"
    "\<forall>x \<in> set (take n data). wrong_fields fieldnames x = []"
    "\<forall>m. writes d = Some m \<longrightarrow> Suc n \<le> m"
    "if n = length data
     then raised (plain_block fieldnames d data) = with_exit d None
     else if wrong_fields fieldnames (data ! n) \<noteq> []
          then raised (plain_block fieldnames d data)
               = with_exit d (Some (ValueError (wrong_fields fieldnames (data ! n))))
          else writes d = Some (Suc n) \<and> raised (plain_block fieldnames d data) = Some OSError"
    by blast
  show ?thesis
  proof (cases "n = length data")
    case True
    with n show ?thesis
      by (intro exI [of _ n]) (simp add: json_to_csv_def with_exit_def)
  next
    case False
    note neq = this
    show ?thesis
    proof (cases "wrong_fields fieldnames (data ! n) \<noteq> []")
      case True
      with neq n show ?thesis
        by (intro exI [of _ n]) (simp add: json_to_csv_def with_exit_def)
    next
      case False
      with neq n show ?thesis
        by (intro exI [of _ n]) (simp add: json_to_csv_def)
    qed
  qed
qed

section \<open>The claims\<close>

text \<open>
  C2. Claimed: when every record has the eleven keys, the export succeeds and reports as
  many rows as there are records. A record that has the eleven keys and one more makes
  \<open>DictWriter\<close> raise, and the script prints the error instead of a count.
\<close>

theorem extra_key_counterexample:
  "set fieldnames \<subseteq> set (map fst (push_up @ [(''note'', JStr ''x'')]))
   \<and> printed (complete_export reliable [push_up @ [(''note'', JStr ''x'')]])
     = [Error (ValueError [''note''])]"
  by code_simp

text \<open>
  C2, amended. When the keys of every record are exactly the eleven field names and the
  destination opens, closes and takes the header and one write per record, the scripts
  print the two lines of success, with a count equal to the number of records, and
  nothing else.
\<close>

theorem export_reports_length:
  assumes "takes d (Suc (length data))"
    and "\<forall>x \<in> set data. set (map fst x) = set fieldnames"
  shows "printed (complete_export d data) = [Created, Exported (length data)]
       \<and> raised (complete_export d data) = None
       \<and> printed (export_exercises d data) = [Created, Exported (length data)]
       \<and> raised (export_exercises d data) = None"
proof -
  from assms(2) have "\<forall>x \<in> set data. wrong_fields fieldnames x = []"
    by (simp add: wrong_fields_empty_iff)
  with assms(1) show ?thesis
    by (simp add: complete_export_succeeds export_exercises_succeeds)
qed

theorem export_reports_length_witness:
  "takes reliable (Suc (length [push_up, push_up]))
   \<and> set (map fst push_up) = set fieldnames
   \<and> printed (complete_export reliable [push_up, push_up]) = [Created, Exported 2]
   \<and> printed (export_exercises reliable [push_up, push_up]) = [Created, Exported 2]"
proof -
  have t: "takes reliable (Suc (length [push_up, push_up]))"
    by (simp add: takes_def reliable_def)
  have k: "set (map fst push_up) = set fieldnames"
    by (auto simp: push_up_def fieldnames_def)
  then have "\<forall>x \<in> set [push_up, push_up]. set (map fst x) = set fieldnames"
    by simp
  from export_reports_length [OF t this] t k show ?thesis by simp
qed

text \<open>
  C10. For the empty list of records and a destination that opens, closes and takes one
  write, the file holds the header line and nothing else, which reads back as the one
  row of the eleven field names, and the count printed is 0.
\<close>

theorem export_empty:
  assumes "takes d 1"
  shows "csv (complete_export d [])
         = Some (''id,name,instructions,video_url,created_at,type,difficulty,category_id,is_variation,equipment,muscle''
                 @ [CR, LF])
       \<and> read_csv (''id,name,instructions,video_url,created_at,type,difficulty,category_id,is_variation,equipment,muscle''
                 @ [CR, LF]) = Some [fieldnames]
       \<and> printed (complete_export d []) = [Created, Exported 0]
       \<and> raised (complete_export d []) = None
       \<and> csv (export_exercises d []) = csv (complete_export d [])
       \<and> printed (export_exercises d []) = [Created, Exported 0]"
proof -
  from assms have t: "takes d (Suc (length ([] :: exercise list)))" by simp
  have "read_csv (header_line fieldnames) = Some [fieldnames]"
    using read_csv_lines [of "[map JStr fieldnames]"]
    by (simp add: header_line_def comp_def fieldnames_def)
  then show ?thesis
    using complete_export_succeeds [OF t] export_exercises_succeeds [OF t]
    by (simp add: header_fieldnames)
qed

theorem export_empty_witness:
  "takes reliable 1 \<and> printed (complete_export reliable []) = [Created, Exported 0]
   \<and> csv (complete_export reliable []) = Some (header_line fieldnames)"
proof -
  have t: "takes reliable 1" by (simp add: takes_def reliable_def)
  from export_empty [OF t] t show ?thesis by (simp add: header_fieldnames)
qed

end
